theory Spec2Isabelle
  imports Main
begin

section \<open>Data model\<close>

text \<open>
  Modelled from the spec: the enumeration \<open>MessageType::Type\<close> is declared in
  staircase.hpp, which is not among the sources. Its values here are the kinds the two
  translation units name. The standalone entry point handles \<open>InitDemoScene\<close> and
  \<open>SetStepFileContent\<close>; the viewer class handles \<open>InitEmptyScene\<close> and \<open>InitStepFile\<close>.
  Whatever a handler's \<open>switch\<close> does not list falls into its \<open>default\<close> branch.
\<close>

datatype MessageType =
    ClearScreen
  | InitDemoScene
  | InitEmptyScene
  | InitStepFile
  | NextFrame
  | DrawLoadingScreen
  | SetStepFileContent

text \<open>
  Modelled from the spec: \<open>Staircase::Message\<close> is declared in staircase.hpp, which is not
  among the sources. A message is a tag, an optional shared payload and an optional
  successor; the fields carry the names the sources use (\<open>type\<close>, \<open>data\<close>,
  \<open>nextMessage\<close>). Messages are copied by value into and out of the queue and never
  mutated after construction, so a message is the value of its node together with the
  value of the chain behind it.
\<close>

datatype Message =
  Message (type: MessageType) (data: "string option") (nextMessage: "Message option")

text \<open>
  Modelled from the spec: the context and the view controller are declared in
  AppContext.hpp and its includes, which are not among the sources. The context owns the
  queue, the current document handle and the spinner flag; the fields are the ones the
  sources read and write. A document handle is opaque.
\<close>

type_synonym DocHandle = nat

record StaircaseViewController =
  shouldRender :: bool

record AppContext =
  messageQueue :: "Message list"
  showingSpinner :: bool
  currentlyViewingDoc :: "DocHandle option"
  viewController :: StaircaseViewController
  shaderProgram :: nat

text \<open>
  Calls that leave the coordination core: the renderer, the view controller, the logger,
  the host's timer and cross-thread trigger, and the document loader. They are recorded
  in program order.
\<close>

datatype Call =
    ClearCanvas
  | InitScene
  | UpdateView
  | InitStepFileCall "DocHandle option"
  | CreateShaderProgram
  | DrawLoadingScreenCall nat
  | LogUnhandled
  | SetTimeout nat
  | AsyncRunHandleMessages
  | ReadStepFile string
  | LogLoadStepFile
  | LogFailedRead
  | PrintLabels DocHandle
  | LogLoaded

record Host =
  calls :: "Call list"
  programs :: nat

text \<open>What both threads see: the shared context and the host around it.\<close>

record Sys =
  ctx :: AppContext
  host :: Host

text \<open>
  Modelled from the spec: \<open>AppContext::pushMessage\<close> and \<open>AppContext::drainMessageQueue\<close>
  are declared in AppContext.hpp, which is not among the sources. \<open>push\<close> inserts at the
  tail; \<open>drainAll\<close> removes and returns all currently queued messages in their original
  order and leaves the queue empty.
\<close>

definition pushMessage :: "Message \<Rightarrow> AppContext \<Rightarrow> AppContext" where
  "pushMessage m c = c\<lparr>messageQueue := messageQueue c @ [m]\<rparr>"

definition drainMessageQueue :: "AppContext \<Rightarrow> Message list \<times> AppContext" where
  "drainMessageQueue c = (messageQueue c, c\<lparr>messageQueue := []\<rparr>)"

section \<open>The chain builder\<close>

text \<open>
  \<open>chain(types...)\<close> allocates one node per kind with \<open>make_shared\<close> and links it behind
  the previous one through \<open>current->nextMessage = newMsg\<close>. The store is the list of
  allocated nodes, an address is an index into it, and \<open>head\<close> and \<open>current\<close> are the
  two captured pointers (\<open>None\<close> is \<open>nullptr\<close>). The source writes through \<open>current\<close>
  whenever \<open>head\<close> is set; the two are set together, so \<open>current\<close> is never null there
  (\<open>chain_build_closed_form\<close> below), and the branch for a null \<open>current\<close> only makes the
  function total.
\<close>

record Node =
  ntype :: MessageType
  nnext :: "nat option"

record Builder =
  store :: "Node list"
  head :: "nat option"
  current :: "nat option"

definition createAndLink :: "MessageType \<Rightarrow> Builder \<Rightarrow> Builder" where
  "createAndLink t b =
     (let newMsg = length (store b);
          st = store b @ [\<lparr>ntype = t, nnext = None\<rparr>]
      in case head b of
           None \<Rightarrow> \<lparr>store = st, head = Some newMsg, current = Some newMsg\<rparr>
         | Some h \<Rightarrow>
             (case current b of
                None \<Rightarrow> \<lparr>store = st, head = Some h, current = Some newMsg\<rparr>
              | Some cur \<Rightarrow>
                  \<lparr>store = st[cur := (st ! cur)\<lparr>nnext := Some newMsg\<rparr>],
                   head = Some h, current = Some newMsg\<rparr>))"

definition chain_build :: "MessageType list \<Rightarrow> Builder" where
  "chain_build types = fold createAndLink types \<lparr>store = [], head = None, current = None\<rparr>"

text \<open>
  Reading a chain out of the store: \<open>walk\<close> follows \<open>nextMessage\<close> pointers from an
  address and returns the addresses it visits; it gives up (\<open>None\<close>) when the fuel runs
  out or a pointer leaves the store, so a cyclic chain has no walk for any fuel.
\<close>

fun walk :: "Node list \<Rightarrow> nat \<Rightarrow> nat option \<Rightarrow> nat list option" where
  "walk st fuel None = Some []"
| "walk st 0 (Some a) = None"
| "walk st (Suc fuel) (Some a) =
     (if a < length st
      then (case walk st fuel (nnext (st ! a)) of
              None \<Rightarrow> None
            | Some as \<Rightarrow> Some (a # as))
      else None)"

text \<open>
  The message value behind a pointer (what \<open>*ptr\<close> copies), read along a walk.
\<close>

fun message_at :: "Node list \<Rightarrow> nat list \<Rightarrow> Message option" where
  "message_at st [] = None"
| "message_at st (a # as) = Some (Message (ntype (st ! a)) None (message_at st as))"

definition chain :: "MessageType list \<Rightarrow> Message option" where
  "chain types =
     (let b = chain_build types
      in case walk (store b) (length (store b)) (head b) of
           None \<Rightarrow> None
         | Some as \<Rightarrow> message_at (store b) as)"

text \<open>The kinds of a message and of the chain behind it, front to back.\<close>

fun kinds :: "Message \<Rightarrow> MessageType list" where
  "kinds (Message t d None) = [t]"
| "kinds (Message t d (Some m)) = t # kinds m"

definition kinds_opt :: "Message option \<Rightarrow> MessageType list" where
  "kinds_opt mo = (case mo of None \<Rightarrow> [] | Some m \<Rightarrow> kinds m)"

section \<open>The frame scheduler of the viewer class\<close>

text \<open>
  The state of one invocation of \<open>StaircaseViewer::handleMessages\<close>: the shared context
  and the host, the local flag \<open>nextFrame\<close>, and the messages taken from the local queue
  so far (\<open>localQueue.front()\<close> followed by \<open>pop()\<close>), in order.
\<close>

record Tick = Sys +
  nextFrame :: bool
  handled :: "Message list"

definition FPS60 :: nat where
  "FPS60 = 1000 div 60"

definition call :: "Call \<Rightarrow> Tick \<Rightarrow> Tick" where
  "call c s = s\<lparr>host := (host s)\<lparr>calls := calls (host s) @ [c]\<rparr>\<rparr>"

definition setShouldRender :: "bool \<Rightarrow> Tick \<Rightarrow> Tick" where
  "setShouldRender b s =
     s\<lparr>ctx := (ctx s)\<lparr>viewController := (viewController (ctx s))\<lparr>shouldRender := b\<rparr>\<rparr>\<rparr>"

text \<open>
  Modelled from the spec: \<open>createShaderProgram\<close> lives in GraphicsUtilities, which is not
  among the sources; the renderer's \<open>buildPipeline() -> PipelineHandle\<close> returns a handle,
  here the number of the program built.
\<close>

definition createShaderProgram :: "Tick \<Rightarrow> Tick" where
  "createShaderProgram s =
     (let p = Suc (programs (host s));
          s1 = call CreateShaderProgram s
      in s1\<lparr>host := (host s1)\<lparr>programs := p\<rparr>, ctx := (ctx s1)\<lparr>shaderProgram := p\<rparr>\<rparr>)"

definition schedNextFrameWith :: "MessageType \<Rightarrow> Tick \<Rightarrow> Tick" where
  "schedNextFrameWith t s =
     s\<lparr>ctx := pushMessage (Message t None None) (ctx s), nextFrame := True\<rparr>"

text \<open>The \<open>switch (message.type)\<close> of the loop body.\<close>

definition dispatch :: "Message \<Rightarrow> Tick \<Rightarrow> Tick" where
  "dispatch message s =
     (case type message of
        ClearScreen \<Rightarrow> call ClearCanvas s
      | InitEmptyScene \<Rightarrow> call UpdateView (call InitScene (setShouldRender True s))
      | InitStepFile \<Rightarrow> call (InitStepFileCall (currentlyViewingDoc (ctx s))) s
      | NextFrame \<Rightarrow> schedNextFrameWith NextFrame s
      | DrawLoadingScreen \<Rightarrow>
          (let s1 = call ClearCanvas s;
               s2 = (if shouldRender (viewController (ctx s1))
                     then createShaderProgram s1 else s1);
               s3 = setShouldRender False s2;
               s4 = call (DrawLoadingScreenCall (shaderProgram (ctx s3))) s3
           in if showingSpinner (ctx s4)
              then schedNextFrameWith DrawLoadingScreen s4
              else (setShouldRender True s4)\<lparr>nextFrame := False\<rparr>)
      | _ \<Rightarrow> call LogUnhandled s)"

text \<open>
  The check behind the \<open>switch\<close>: a successor is re-enqueued and asks for another
  invocation.
\<close>

definition enqueueSuccessor :: "Message \<Rightarrow> Tick \<Rightarrow> Tick" where
  "enqueueSuccessor message s =
     (case nextMessage message of
        None \<Rightarrow> s
      | Some n \<Rightarrow> s\<lparr>ctx := pushMessage n (ctx s), nextFrame := True\<rparr>)"

text \<open>
  One iteration of the \<open>while\<close> loop: take the front message, dispatch on its kind, then
  look at its successor.
\<close>

definition processMessage :: "Message \<Rightarrow> Tick \<Rightarrow> Tick" where
  "processMessage message s =
     enqueueSuccessor message (dispatch message (s\<lparr>handled := handled s @ [message]\<rparr>))"

text \<open>\<open>while (!localQueue.empty())\<close>: the loop only ever shortens the local queue.\<close>

fun processQueue :: "Message list \<Rightarrow> Tick \<Rightarrow> Tick" where
  "processQueue [] s = s"
| "processQueue (message # localQueue) s = processQueue localQueue (processMessage message s)"

definition armTimer :: "Tick \<Rightarrow> Tick" where
  "armTimer s = (if nextFrame s then call (SetTimeout FPS60) s else s)"

definition handleMessages :: "Sys \<Rightarrow> Tick" where
  "handleMessages w =
     (case drainMessageQueue (ctx w) of
        (localQueue, c') \<Rightarrow>
          armTimer (processQueue localQueue
                      \<lparr>ctx = c', host = host w, nextFrame = False, handled = []\<rparr>))"

definition after :: "Tick \<Rightarrow> Sys" where
  "after s = \<lparr>ctx = ctx s, host = host s\<rparr>"

text \<open>A run of \<open>n\<close> consecutive invocations, with the messages each of them handled.\<close>

fun ticks :: "nat \<Rightarrow> Sys \<Rightarrow> Message list list \<times> Sys" where
  "ticks 0 w = ([], w)"
| "ticks (Suc n) w =
     (let s = handleMessages w
      in case ticks n (after s) of
           (hs, w') \<Rightarrow> (handled s # hs, w'))"

section \<open>The threads around the scheduler\<close>

text \<open>
  The worker thread and the UI shell act on the shared state one statement at a time, and
  the order of these statements is what the write-then-publish discipline is about. A
  thread body is the sequence of its atomic steps in program order.
\<close>

datatype Action =
    SetShowingSpinner bool
  | SetCurrentlyViewingDoc DocHandle
  | PushMessage Message
  | Extern Call

fun perform :: "Action \<Rightarrow> 'a Sys_scheme \<Rightarrow> 'a Sys_scheme" where
  "perform (SetShowingSpinner b) w = w\<lparr>ctx := (ctx w)\<lparr>showingSpinner := b\<rparr>\<rparr>"
| "perform (SetCurrentlyViewingDoc d) w = w\<lparr>ctx := (ctx w)\<lparr>currentlyViewingDoc := Some d\<rparr>\<rparr>"
| "perform (PushMessage m) w = w\<lparr>ctx := pushMessage m (ctx w)\<rparr>"
| "perform (Extern c) w = w\<lparr>host := (host w)\<lparr>calls := calls (host w) @ [c]\<rparr>\<rparr>"

definition run :: "Action list \<Rightarrow> 'a Sys_scheme \<Rightarrow> 'a Sys_scheme" where
  "run steps w = fold perform steps w"

text \<open>
  \<open>context->pushMessage(*chain(...))\<close> dereferences the pointer the builder returns; a
  null head has nothing to push (\<open>None\<close>).
\<close>

definition pushChain :: "MessageType list \<Rightarrow> Action list option" where
  "pushChain types = (case chain types of None \<Rightarrow> None | Some m \<Rightarrow> Some [PushMessage m])"

text \<open>\<open>StaircaseViewer::initEmptyScene\<close>, called by the UI shell.\<close>

definition initEmptyScene :: "Action list option" where
  "initEmptyScene =
     pushChain [ClearScreen, ClearScreen, ClearScreen, InitEmptyScene, NextFrame]"

text \<open>
  The completion callback that \<open>StaircaseViewer::_loadStepFile\<close> hands to \<open>readStepFile\<close>,
  applied to what the loader found.
\<close>

definition onStepFileRead :: "DocHandle option \<Rightarrow> Action list option" where
  "onStepFileRead docOpt =
     (case docOpt of
        None \<Rightarrow> Some [Extern LogFailedRead]
      | Some aDoc \<Rightarrow>
          (case pushChain [ClearScreen, ClearScreen, ClearScreen, InitStepFile, NextFrame] of
             None \<Rightarrow> None
           | Some push \<Rightarrow>
               Some ([Extern (PrintLabels aDoc), Extern LogLoaded,
                      SetShowingSpinner False, SetCurrentlyViewingDoc aDoc]
                     @ push @ [Extern AsyncRunHandleMessages])))"

text \<open>
  Modelled from the spec: \<open>readStepFile\<close> lives in OCCTUtilities, which is not among the
  sources. The document loader blocks on the parse and invokes \<open>onComplete\<close> exactly once,
  with a present handle on success or an empty one on failure; the outcome \<open>docOpt\<close> of the
  parse is an input of the model.
\<close>

definition readStepFile ::
  "string \<Rightarrow> DocHandle option \<Rightarrow> (DocHandle option \<Rightarrow> Action list option)
     \<Rightarrow> Action list option" where
  "readStepFile content docOpt onComplete =
     (case onComplete docOpt of
        None \<Rightarrow> None
      | Some steps \<Rightarrow> Some (Extern (ReadStepFile content) # steps))"

text \<open>\<open>StaircaseViewer::_loadStepFile\<close>, the body of the viewer's worker thread.\<close>

definition beforeReadStepFile :: "Action list" where
  "beforeReadStepFile =
     [SetShowingSpinner True, PushMessage (Message DrawLoadingScreen None None)]"

definition loadStepFile_viewer :: "string \<Rightarrow> DocHandle option \<Rightarrow> Action list option" where
  "loadStepFile_viewer stepFileContent docOpt =
     (case readStepFile stepFileContent docOpt onStepFileRead of
        None \<Rightarrow> None
      | Some steps \<Rightarrow> Some (beforeReadStepFile @ steps))"

text \<open>
  \<open>loadStepFile\<close> of the standalone entry point, with its own completion callback; the
  text of the embedded file is a parameter.
\<close>

definition onStepFileRead_main :: "DocHandle option \<Rightarrow> Action list option" where
  "onStepFileRead_main docOpt =
     (case docOpt of
        None \<Rightarrow> Some [Extern LogFailedRead]
      | Some aDoc \<Rightarrow>
          (case pushChain [ClearScreen, ClearScreen, ClearScreen, InitDemoScene, NextFrame] of
             None \<Rightarrow> None
           | Some push \<Rightarrow>
               Some ([Extern (PrintLabels aDoc), Extern LogLoaded,
                      SetShowingSpinner False, SetCurrentlyViewingDoc aDoc]
                     @ push @ [Extern AsyncRunHandleMessages])))"

definition beforeReadStepFile_main :: "string \<Rightarrow> Action list" where
  "beforeReadStepFile_main stepFileStr =
     [Extern LogLoadStepFile,
      SetShowingSpinner True,
      PushMessage (Message DrawLoadingScreen None None),
      PushMessage (Message SetStepFileContent (Some stepFileStr) None),
      Extern AsyncRunHandleMessages]"

definition loadStepFile_main :: "string \<Rightarrow> DocHandle option \<Rightarrow> Action list option" where
  "loadStepFile_main stepFileStr docOpt =
     (case readStepFile stepFileStr docOpt onStepFileRead_main of
        None \<Rightarrow> None
      | Some steps \<Rightarrow> Some (beforeReadStepFile_main stepFileStr @ steps))"

text \<open>The steps a thread body takes before it calls the document loader.\<close>

fun isReadStepFile :: "Action \<Rightarrow> bool" where
  "isReadStepFile (Extern (ReadStepFile content)) = True"
| "isReadStepFile a = False"

fun untilReadStepFile :: "Action list \<Rightarrow> Action list" where
  "untilReadStepFile [] = []"
| "untilReadStepFile (a # steps) = (if isReadStepFile a then [] else a # untilReadStepFile steps)"

text \<open>
  The loop with the worker thread running alongside. The queue is only touched under its
  lock, so a step of the worker falls before or after a step of the loop: here the worker
  performs some of its steps before each message is taken from the local queue, and some
  more between the \<open>switch\<close> and the successor check.
\<close>

fun processQueueAmid :: "(Action list \<times> Action list \<times> Message) list \<Rightarrow> Tick \<Rightarrow> Tick" where
  "processQueueAmid [] s = s"
| "processQueueAmid ((before, amid, message) # localQueue) s =
     processQueueAmid localQueue
       (enqueueSuccessor message
          (run amid
             (dispatch message ((run before s)\<lparr>handled := handled (run before s) @ [message]\<rparr>))))"

section \<open>Derived notions used in the statements\<close>

text \<open>
  What handling one message leaves on the queue: a fresh, successor-less message of the
  same kind for \<open>NextFrame\<close> and for \<open>DrawLoadingScreen\<close> under a running spinner
  (\<open>schedNextFrameWith\<close>), followed by the message's successor, if it has one.
\<close>

definition selfPush :: "bool \<Rightarrow> Message \<Rightarrow> Message list" where
  "selfPush spinner m =
     (if type m = NextFrame then [Message NextFrame None None]
      else if type m = DrawLoadingScreen \<and> spinner then [Message DrawLoadingScreen None None]
      else [])"

definition successor :: "Message \<Rightarrow> Message list" where
  "successor m = (case nextMessage m of None \<Rightarrow> [] | Some n \<Rightarrow> [n])"

definition requeue :: "bool \<Rightarrow> Message list \<Rightarrow> Message list" where
  "requeue spinner q = concat (map (\<lambda>m. selfPush spinner m @ successor m) q)"

text \<open>The message \<open>i\<close> links behind a message.\<close>

fun behind :: "nat \<Rightarrow> Message \<Rightarrow> Message option" where
  "behind 0 m = Some m"
| "behind (Suc i) m = (case nextMessage m of None \<Rightarrow> None | Some n \<Rightarrow> behind i n)"

text \<open>
  What lies strictly between the first \<open>x\<close> of a sequence and the next \<open>y\<close> after it.
\<close>

definition between :: "'a \<Rightarrow> 'a \<Rightarrow> 'a list \<Rightarrow> 'a list" where
  "between x y xs = takeWhile (\<lambda>z. z \<noteq> y) (tl (dropWhile (\<lambda>z. z \<noteq> x) xs))"

text \<open>
  A context as the spec's Idle state has it: nothing queued, no document, spinner off.
\<close>

definition idle :: Sys where
  "idle =
     \<lparr>ctx = \<lparr>messageQueue = [], showingSpinner = False, currentlyViewingDoc = None,
             viewController = \<lparr>shouldRender = False\<rparr>, shaderProgram = 1\<rparr>,
      host = \<lparr>calls = [], programs = 1\<rparr>\<rparr>"

text \<open>The kinds that the \<open>switch\<close> of the viewer's scheduler leaves to \<open>default\<close>.\<close>

fun unhandledKind :: "MessageType \<Rightarrow> bool" where
  "unhandledKind InitDemoScene = True"
| "unhandledKind SetStepFileContent = True"
| "unhandledKind t = False"

text \<open>
  What one loop iteration makes of the flag \<open>nextFrame\<close>: the successor check comes last
  and wins, \<open>NextFrame\<close> sets the flag, \<open>DrawLoadingScreen\<close> overwrites it with the spinner
  state, every other kind leaves it alone.
\<close>

definition flagAfter :: "bool \<Rightarrow> bool \<Rightarrow> Message \<Rightarrow> bool" where
  "flagAfter spinner b m =
     (if nextMessage m \<noteq> None then True
      else if type m = NextFrame then True
      else if type m = DrawLoadingScreen then spinner
      else b)"

text \<open>
  With the spinner off, the messages that set the flag \<open>nextFrame\<close> when they are handled
  (a \<open>NextFrame\<close>, or any message that carries a successor) and the messages that clear it
  (a \<open>DrawLoadingScreen\<close> without successor).
\<close>

definition requestsFrame :: "Message \<Rightarrow> bool" where
  "requestsFrame m = (if type m = NextFrame then True else nextMessage m \<noteq> None)"

definition withdrawsFrame :: "Message \<Rightarrow> bool" where
  "withdrawsFrame m = (type m = DrawLoadingScreen \<and> nextMessage m = None)"

text \<open>
  Two devices for comparing invocations: \<open>rebase\<close> puts an earlier history of calls and
  handled messages in front of an invocation's own, \<open>fresh\<close> forgets the history.
\<close>

definition rebase :: "Call list \<Rightarrow> Message list \<Rightarrow> Tick \<Rightarrow> Tick" where
  "rebase cs hs s =
     s\<lparr>host := (host s)\<lparr>calls := cs @ calls (host s)\<rparr>, handled := hs @ handled s\<rparr>"

definition fresh :: "Tick \<Rightarrow> Tick" where
  "fresh s = s\<lparr>host := (host s)\<lparr>calls := []\<rparr>, handled := []\<rparr>"

text \<open>
  The closed form of what the builder leaves in the store: node \<open>i\<close> holds the \<open>i\<close>-th
  kind and points to node \<open>i + 1\<close>, the last node points nowhere. \<open>linked\<close> is the value
  of such a chain.
\<close>

definition linked_store :: "MessageType list \<Rightarrow> Node list" where
  "linked_store types =
     map (\<lambda>i. \<lparr>ntype = types ! i,
               nnext = (if Suc i < length types then Some (Suc i) else None)\<rparr>)
       [0..<length types]"

fun linked :: "MessageType list \<Rightarrow> Message option" where
  "linked [] = None"
| "linked (t # types) = Some (Message t None (linked types))"

text \<open>The chains the viewer class and the standalone worker push, as values.\<close>

definition emptySceneChain :: Message where
  "emptySceneChain =
     Message ClearScreen None (Some (Message ClearScreen None (Some (Message ClearScreen None
       (Some (Message InitEmptyScene None (Some (Message NextFrame None None))))))))"

definition stepFileChain :: Message where
  "stepFileChain =
     Message ClearScreen None (Some (Message ClearScreen None (Some (Message ClearScreen None
       (Some (Message InitStepFile None (Some (Message NextFrame None None))))))))"

definition demoSceneChain :: Message where
  "demoSceneChain =
     Message ClearScreen None (Some (Message ClearScreen None (Some (Message ClearScreen None
       (Some (Message InitDemoScene None (Some (Message NextFrame None None))))))))"

text \<open>The part of a thread body that runs before the document loader is called.\<close>

definition beforeParse :: "Action list option \<Rightarrow> Action list option" where
  "beforeParse body = map_option untilReadStepFile body"

section \<open>What one loop iteration does to each part of the state\<close>

lemmas tick_defs = processMessage_def enqueueSuccessor_def dispatch_def
  schedNextFrameWith_def call_def
  setShouldRender_def createShaderProgram_def pushMessage_def Let_def

lemma handled_processMessage: "handled (processMessage m s) = handled s @ [m]"
  by (cases "type m"; cases "nextMessage m") (simp_all add: tick_defs)

lemma spinner_processMessage:
  "showingSpinner (ctx (processMessage m s)) = showingSpinner (ctx s)"
  by (cases "type m"; cases "nextMessage m") (simp_all add: tick_defs)

lemma doc_processMessage:
  "currentlyViewingDoc (ctx (processMessage m s)) = currentlyViewingDoc (ctx s)"
  by (cases "type m"; cases "nextMessage m") (simp_all add: tick_defs)

lemma queue_processMessage:
  "messageQueue (ctx (processMessage m s)) =
     messageQueue (ctx s) @ selfPush (showingSpinner (ctx s)) m @ successor m"
  by (cases "type m"; cases "nextMessage m") (simp_all add: tick_defs selfPush_def successor_def)

lemma nextFrame_processMessage:
  "nextFrame (processMessage m s) = flagAfter (showingSpinner (ctx s)) (nextFrame s) m"
  by (cases "type m"; cases "nextMessage m") (simp_all add: tick_defs flagAfter_def)

lemma timeouts_processMessage:
  "count_list (calls (host (processMessage m s))) (SetTimeout k)
     = count_list (calls (host s)) (SetTimeout k)"
  by (cases "type m"; cases "nextMessage m") (simp_all add: tick_defs)

lemma rebase_processMessage:
  "processMessage m (rebase cs hs s) = rebase cs hs (processMessage m s)"
  by (cases "type m"; cases "nextMessage m") (simp_all add: tick_defs rebase_def)

section \<open>The loop and the invocation\<close>

lemma processQueue_append:
  "processQueue (xs @ ys) s = processQueue ys (processQueue xs s)"
  by (induction xs arbitrary: s) simp_all

lemma handled_processQueue: "handled (processQueue lq s) = handled s @ lq"
  by (induction lq arbitrary: s) (simp_all add: handled_processMessage)

lemma spinner_processQueue:
  "showingSpinner (ctx (processQueue lq s)) = showingSpinner (ctx s)"
  by (induction lq arbitrary: s) (simp_all add: spinner_processMessage)

lemma doc_processQueue:
  "currentlyViewingDoc (ctx (processQueue lq s)) = currentlyViewingDoc (ctx s)"
  by (induction lq arbitrary: s) (simp_all add: doc_processMessage)

lemma queue_processQueue:
  "messageQueue (ctx (processQueue lq s)) =
     messageQueue (ctx s) @ requeue (showingSpinner (ctx s)) lq"
  by (induction lq arbitrary: s)
     (simp_all add: queue_processMessage spinner_processMessage requeue_def)

lemma nextFrame_processQueue:
  "nextFrame (processQueue lq s) = foldl (flagAfter (showingSpinner (ctx s))) (nextFrame s) lq"
  by (induction lq arbitrary: s)
     (simp_all add: nextFrame_processMessage spinner_processMessage)

lemma timeouts_processQueue:
  "count_list (calls (host (processQueue lq s))) (SetTimeout k)
     = count_list (calls (host s)) (SetTimeout k)"
  by (induction lq arbitrary: s) (simp_all add: timeouts_processMessage)

lemma rebase_processQueue:
  "processQueue lq (rebase cs hs s) = rebase cs hs (processQueue lq s)"
  by (induction lq arbitrary: s) (simp_all add: rebase_processMessage)

lemma armTimer_ctx: "ctx (armTimer s) = ctx s"
  by (simp add: armTimer_def call_def)

lemma armTimer_handled: "handled (armTimer s) = handled s"
  by (simp add: armTimer_def call_def)

lemma armTimer_nextFrame: "nextFrame (armTimer s) = nextFrame s"
  by (simp add: armTimer_def call_def)

lemma rebase_armTimer: "armTimer (rebase cs hs s) = rebase cs hs (armTimer s)"
  by (simp add: armTimer_def rebase_def call_def)

lemma rebase_fields [simp]:
  "ctx (rebase cs hs s) = ctx s"
  "nextFrame (rebase cs hs s) = nextFrame s"
  "programs (host (rebase cs hs s)) = programs (host s)"
  "calls (host (rebase cs hs s)) = cs @ calls (host s)"
  "handled (rebase cs hs s) = hs @ handled s"
  by (simp_all add: rebase_def)

lemma rebase_fresh: "rebase (calls (host s)) (handled s) (fresh s) = s"
  by (simp add: rebase_def fresh_def)

lemma after_simps [simp]: "ctx (after s) = ctx s" "host (after s) = host s"
  by (simp_all add: after_def)

lemma handled_handleMessages: "handled (handleMessages w) = messageQueue (ctx w)"
  by (simp add: handleMessages_def drainMessageQueue_def armTimer_handled handled_processQueue)

lemma queue_handleMessages:
  "messageQueue (ctx (handleMessages w)) = requeue (showingSpinner (ctx w)) (messageQueue (ctx w))"
  by (simp add: handleMessages_def drainMessageQueue_def armTimer_ctx queue_processQueue)

lemma spinner_handleMessages:
  "showingSpinner (ctx (handleMessages w)) = showingSpinner (ctx w)"
  by (simp add: handleMessages_def drainMessageQueue_def armTimer_ctx spinner_processQueue)

lemma doc_handleMessages:
  "currentlyViewingDoc (ctx (handleMessages w)) = currentlyViewingDoc (ctx w)"
  by (simp add: handleMessages_def drainMessageQueue_def armTimer_ctx doc_processQueue)

lemma nextFrame_handleMessages:
  "nextFrame (handleMessages w)
     = foldl (flagAfter (showingSpinner (ctx w))) False (messageQueue (ctx w))"
  by (simp add: handleMessages_def drainMessageQueue_def armTimer_nextFrame
      nextFrame_processQueue)

lemma timeouts_handleMessages:
  "count_list (calls (host (handleMessages w))) (SetTimeout FPS60)
     = count_list (calls (host w)) (SetTimeout FPS60)
       + (if nextFrame (handleMessages w) then 1 else 0)"
proof -
  let ?s = "processQueue (messageQueue (ctx w))
              \<lparr>ctx = (ctx w)\<lparr>messageQueue := []\<rparr>, host = host w,
               nextFrame = False, handled = []\<rparr>"
  have hm: "handleMessages w = armTimer ?s"
    by (simp add: handleMessages_def drainMessageQueue_def)
  have "count_list (calls (host (armTimer ?s))) (SetTimeout FPS60)
          = count_list (calls (host ?s)) (SetTimeout FPS60) + (if nextFrame ?s then 1 else 0)"
    by (simp add: armTimer_def call_def)
  then show ?thesis
    by (simp add: hm timeouts_processQueue armTimer_nextFrame)
qed

section \<open>The loop with the worker alongside\<close>

lemma handled_perform: "handled (perform a (s::Tick)) = handled s"
  by (cases a) simp_all

lemma handled_run: "handled (run steps (s::Tick)) = handled s"
  unfolding run_def by (induction steps arbitrary: s) (simp_all add: handled_perform)

lemma queue_perform:
  "\<exists>ps. messageQueue (ctx (perform a s)) = messageQueue (ctx s) @ ps"
  by (cases a) (simp_all add: pushMessage_def)

lemma queue_run: "\<exists>ps. messageQueue (ctx (run steps s)) = messageQueue (ctx s) @ ps"
  unfolding run_def
proof (induction steps arbitrary: s)
  case Nil
  show ?case by simp
next
  case (Cons a steps)
  obtain ps where "messageQueue (ctx (perform a s)) = messageQueue (ctx s) @ ps"
    using queue_perform by blast
  moreover obtain qs where
    "messageQueue (ctx (fold perform steps (perform a s)))
       = messageQueue (ctx (perform a s)) @ qs"
    using Cons.IH by blast
  ultimately show ?case by simp
qed

lemma handled_dispatch: "handled (dispatch m s) = handled s"
  by (cases "type m") (simp_all add: tick_defs)

lemma handled_enqueueSuccessor: "handled (enqueueSuccessor m s) = handled s"
  by (cases "nextMessage m") (simp_all add: tick_defs)

lemma queue_dispatch: "\<exists>ps. messageQueue (ctx (dispatch m s)) = messageQueue (ctx s) @ ps"
  by (cases "type m") (simp_all add: tick_defs)

lemma queue_enqueueSuccessor:
  "\<exists>ps. messageQueue (ctx (enqueueSuccessor m s)) = messageQueue (ctx s) @ ps"
  by (cases "nextMessage m") (simp_all add: tick_defs)

lemma handled_processQueueAmid:
  "handled (processQueueAmid xs s) = handled s @ map (\<lambda>x. snd (snd x)) xs"
  by (induction xs s rule: processQueueAmid.induct)
     (simp_all add: handled_enqueueSuccessor handled_run handled_dispatch)

lemma queue_processQueueAmid:
  "\<exists>ps. messageQueue (ctx (processQueueAmid xs s)) = messageQueue (ctx s) @ ps"
proof (induction xs s rule: processQueueAmid.induct)
  case (1 s)
  show ?case by simp
next
  case (2 before amid message localQueue s)
  let ?s1 = "run before s"
  let ?s2 = "dispatch message (?s1\<lparr>handled := handled ?s1 @ [message]\<rparr>)"
  let ?s3 = "run amid ?s2"
  let ?s4 = "enqueueSuccessor message ?s3"
  obtain p1 where p1: "messageQueue (ctx ?s1) = messageQueue (ctx s) @ p1"
    using queue_run by blast
  obtain p2 where p2: "messageQueue (ctx ?s2) = messageQueue (ctx ?s1) @ p2"
    using queue_dispatch [of message "?s1\<lparr>handled := handled ?s1 @ [message]\<rparr>"] by auto
  obtain p3 where p3: "messageQueue (ctx ?s3) = messageQueue (ctx ?s2) @ p3"
    using queue_run by blast
  obtain p4 where p4: "messageQueue (ctx ?s4) = messageQueue (ctx ?s3) @ p4"
    using queue_enqueueSuccessor by blast
  obtain p5 where "messageQueue (ctx (processQueueAmid localQueue ?s4))
                     = messageQueue (ctx ?s4) @ p5"
    using "2.IH" by blast
  then show ?case by (simp add: p1 p2 p3 p4)
qed

lemma processQueueAmid_alone:
  "processQueueAmid (map (\<lambda>m. ([], [], m)) lq) s = processQueue lq s"
  by (induction lq arbitrary: s) (simp_all add: run_def processMessage_def)

section \<open>An invocation handles what it drained (C10)\<close>

text \<open>
  C10. An invocation handles exactly the messages that were in the queue when it drained
  it, in their order and each once, so its loop runs as many times as that sequence is
  long. Whatever the invocation pushes while it runs (the \<open>NextFrame\<close> and
  \<open>DrawLoadingScreen\<close> self-pushes and the chain successors, collected by \<open>requeue\<close>) is
  still in the context's queue when the invocation returns and is what the next
  invocation handles. The loop itself, started in any state, handles its local queue and
  nothing else and only ever appends to the context's queue; this stays true with the
  worker thread performing steps of its own before and during every iteration.
\<close>

theorem invocation_handles_exactly_the_drained_messages:
  "handled (handleMessages w) = messageQueue (ctx w)
   \<and> length (handled (handleMessages w)) = length (messageQueue (ctx w))
   \<and> messageQueue (ctx (handleMessages w))
       = requeue (showingSpinner (ctx w)) (messageQueue (ctx w))
   \<and> handled (handleMessages (after (handleMessages w)))
       = requeue (showingSpinner (ctx w)) (messageQueue (ctx w))
   \<and> (\<forall>localQueue s.
         handled (processQueue localQueue s) = handled s @ localQueue
         \<and> messageQueue (ctx (processQueue localQueue s))
             = messageQueue (ctx s) @ requeue (showingSpinner (ctx s)) localQueue)
   \<and> (\<forall>xs s.
         handled (processQueueAmid xs s) = handled s @ map (\<lambda>x. snd (snd x)) xs
         \<and> (\<exists>ps. messageQueue (ctx (processQueueAmid xs s)) = messageQueue (ctx s) @ ps))
   \<and> (\<forall>localQueue s.
         processQueueAmid (map (\<lambda>m. ([], [], m)) localQueue) s = processQueue localQueue s)"
  by (simp add: handled_handleMessages queue_handleMessages handled_processQueue
      queue_processQueue handled_processQueueAmid queue_processQueueAmid
      processQueueAmid_alone)

section \<open>The chain builder leaves a straight chain\<close>

lemma length_linked_store [simp]: "length (linked_store ts) = length ts"
  by (simp add: linked_store_def)

lemma nth_linked_store:
  "i < length ts \<Longrightarrow> linked_store ts ! i
     = \<lparr>ntype = ts ! i, nnext = (if Suc i < length ts then Some (Suc i) else None)\<rparr>"
  by (simp add: linked_store_def)

lemma createAndLink_first:
  "createAndLink t \<lparr>store = [], head = None, current = None\<rparr>
     = \<lparr>store = linked_store [t], head = Some 0, current = Some 0\<rparr>"
  by (simp add: createAndLink_def linked_store_def)

lemma createAndLink_next:
  assumes "ts \<noteq> []"
  shows "createAndLink t \<lparr>store = linked_store ts, head = Some 0,
                           current = Some (length ts - 1)\<rparr>
     = \<lparr>store = linked_store (ts @ [t]), head = Some 0, current = Some (length ts)\<rparr>"
proof -
  let ?n = "length ts"
  let ?st = "linked_store ts @ [\<lparr>ntype = t, nnext = None\<rparr>]"
  have pos: "0 < ?n" using assms by simp
  have "?st[?n - 1 := (?st ! (?n - 1))\<lparr>nnext := Some ?n\<rparr>] = linked_store (ts @ [t])"
  proof (rule nth_equalityI)
    show "length (?st[?n - 1 := (?st ! (?n - 1))\<lparr>nnext := Some ?n\<rparr>])
            = length (linked_store (ts @ [t]))"
      by simp
  next
    fix i
    assume "i < length (?st[?n - 1 := (?st ! (?n - 1))\<lparr>nnext := Some ?n\<rparr>])"
    then have i: "i < Suc ?n" by simp
    consider "i = ?n" | "i = ?n - 1" | "Suc i < ?n" using i pos by linarith
    then show "?st[?n - 1 := (?st ! (?n - 1))\<lparr>nnext := Some ?n\<rparr>] ! i
                 = linked_store (ts @ [t]) ! i"
    proof cases
      case 1
      have "?n - 1 \<noteq> ?n" using pos by arith
      with 1 show ?thesis
        by (simp add: nth_linked_store nth_append)
    next
      case 2
      then show ?thesis using pos
        by (simp add: nth_linked_store nth_append)
    next
      case 3
      then show ?thesis
        by (simp add: nth_linked_store nth_append)
    qed
  qed
  then show ?thesis
    by (simp add: createAndLink_def Let_def)
qed

lemma chain_build_closed_form:
  "chain_build ts
     = \<lparr>store = linked_store ts,
        head = (if ts = [] then None else Some 0),
        current = (if ts = [] then None else Some (length ts - 1))\<rparr>"
proof (induction ts rule: rev_induct)
  case Nil
  show ?case by (simp add: chain_build_def linked_store_def)
next
  case (snoc t ts)
  have step: "chain_build (ts @ [t]) = createAndLink t (chain_build ts)"
    by (simp add: chain_build_def)
  show ?case
  proof (cases "ts = []")
    case True
    then show ?thesis
      using createAndLink_first [of t] by (simp add: step chain_build_def)
  next
    case False
    then show ?thesis
      using snoc createAndLink_next [OF False, of t] by (simp add: step)
  qed
qed

lemma walk_linked_store:
  "i \<le> length ts \<Longrightarrow> length ts - i \<le> fuel \<Longrightarrow>
     walk (linked_store ts) fuel (if i < length ts then Some i else None)
       = Some [i..<length ts]"
proof (induction fuel arbitrary: i)
  case 0
  then show ?case by simp
next
  case (Suc fuel)
  show ?case
  proof (cases "i < length ts")
    case False
    with Suc.prems show ?thesis by simp
  next
    case True
    have "walk (linked_store ts) fuel (if Suc i < length ts then Some (Suc i) else None)
            = Some [Suc i..<length ts]"
      using Suc.IH [of "Suc i"] Suc.prems True by simp
    with True show ?thesis
      by (simp add: nth_linked_store upt_conv_Cons)
  qed
qed

lemma walk_from_head:
  "walk (linked_store ts) (length ts) (if ts = [] then None else Some 0) = Some [0..<length ts]"
proof -
  have "walk (linked_store ts) (length ts) (if 0 < length ts then Some 0 else None)
          = Some [0..<length ts]"
    using walk_linked_store [of 0 ts "length ts"] by simp
  then show ?thesis
    by (cases ts) simp_all
qed

lemma message_at_linked_store:
  "i \<le> length ts \<Longrightarrow> message_at (linked_store ts) [i..<length ts] = linked (drop i ts)"
proof (induction "length ts - i" arbitrary: i)
  case 0
  then show ?case by simp
next
  case (Suc k)
  then have lt: "i < length ts" by simp
  have "message_at (linked_store ts) [Suc i..<length ts] = linked (drop (Suc i) ts)"
    using Suc.hyps(1) [of "Suc i"] Suc.hyps(2) lt by simp
  with lt show ?case
    by (simp add: upt_conv_Cons nth_linked_store Cons_nth_drop_Suc [symmetric])
qed

lemma chain_linked: "chain ts = linked ts"
  using walk_from_head [of ts] message_at_linked_store [of 0 ts]
  by (simp add: chain_def chain_build_closed_form)

lemma kinds_opt_linked: "kinds_opt (linked ts) = ts"
proof (induction ts)
  case Nil
  show ?case by (simp add: kinds_opt_def)
next
  case (Cons t ts)
  then show ?case by (cases ts) (simp_all add: kinds_opt_def)
qed

lemma kinds_nonempty: "kinds m \<noteq> []"
  by (cases m rule: kinds.cases) simp_all

lemma kinds_successor: "kinds_opt (nextMessage m) = tl (kinds m)"
  by (cases m rule: kinds.cases) (simp_all add: kinds_opt_def)

lemma not_own_successor: "nextMessage m \<noteq> Some m"
proof
  assume own: "nextMessage m = Some m"
  obtain t d n where m: "m = Message t d n" by (cases m)
  with own have "n = Some m" by simp
  with m have "size m = size (Message t d (Some m))" by simp
  then show False by simp
qed

lemma chain_emptyScene:
  "chain [ClearScreen, ClearScreen, ClearScreen, InitEmptyScene, NextFrame] = Some emptySceneChain"
  by (simp add: chain_linked emptySceneChain_def)

lemma chain_stepFile:
  "chain [ClearScreen, ClearScreen, ClearScreen, InitStepFile, NextFrame] = Some stepFileChain"
  by (simp add: chain_linked stepFileChain_def)

lemma chain_demoScene:
  "chain [ClearScreen, ClearScreen, ClearScreen, InitDemoScene, NextFrame] = Some demoSceneChain"
  by (simp add: chain_linked demoSceneChain_def)

lemma map_ntype_linked_store: "map ntype (linked_store ts) = ts"
  by (simp add: linked_store_def o_def map_nth)

lemma map_nnext_linked_store:
  "map nnext (linked_store ts)
     = map (\<lambda>i. if Suc i < length ts then Some (Suc i) else None) [0..<length ts]"
  by (simp add: linked_store_def o_def)

lemma kinds_emptySceneChain:
  "kinds emptySceneChain = [ClearScreen, ClearScreen, ClearScreen, InitEmptyScene, NextFrame]"
  by (simp add: emptySceneChain_def)

lemma kinds_stepFileChain:
  "kinds stepFileChain = [ClearScreen, ClearScreen, ClearScreen, InitStepFile, NextFrame]"
  by (simp add: stepFileChain_def)

section \<open>Chains are straight and consumed link by link (C8)\<close>

text \<open>
  C8. For every list of kinds the builder leaves one node per kind in the store. The walk
  from \<open>head\<close> along the \<open>nextMessage\<close> pointers reaches \<open>nullptr\<close> within as many steps as
  there are nodes and visits the addresses \<open>0, 1, ..., n - 1\<close>, each once, so the chain has
  no cycle; the kinds along it are the given ones, front to back; every node points to
  the next one and the last node to nothing. The message the builder returns has exactly
  these kinds. An invocation handles every drained message once, in order; what it leaves
  on the queue is, per drained message, a fresh self-push where the kind asks for one and
  the message's successor where it has one. A message is never its own successor, and its
  successor carries the same kinds without the first.
\<close>

theorem chain_is_straight_and_consumed_once:
  "walk (store (chain_build types)) (length (store (chain_build types)))
       (head (chain_build types)) = Some [0..<length types]
   \<and> distinct [0..<length types]
   \<and> map ntype (store (chain_build types)) = types
   \<and> map nnext (store (chain_build types))
       = map (\<lambda>i. if Suc i < length types then Some (Suc i) else None) [0..<length types]
   \<and> kinds_opt (chain types) = types
   \<and> handled (handleMessages w) = messageQueue (ctx w)
   \<and> messageQueue (ctx (handleMessages w))
       = concat (map (\<lambda>m. selfPush (showingSpinner (ctx w)) m @ successor m)
           (messageQueue (ctx w)))
   \<and> successor m = (case nextMessage m of None \<Rightarrow> [] | Some n \<Rightarrow> [n])
   \<and> nextMessage m \<noteq> Some m
   \<and> kinds_opt (nextMessage m) = tl (kinds m)"
  using walk_from_head [of types]
  by (simp add: chain_build_closed_form map_ntype_linked_store map_nnext_linked_store
      chain_linked kinds_opt_linked handled_handleMessages queue_handleMessages
      requeue_def successor_def not_own_successor kinds_successor)

section \<open>NextFrame (C2)\<close>

text \<open>
  C2, as stated, fails: handling a \<open>NextFrame\<close> message changes the context. In the idle
  context the queue is empty before and holds a \<open>NextFrame\<close> message afterwards.
\<close>

theorem NextFrame_counterexample:
  "ctx (processMessage (Message NextFrame None None)
          \<lparr>ctx = ctx idle, host = host idle, nextFrame = False, handled = []\<rparr>)
     \<noteq> ctx idle
   \<and> messageQueue (ctx idle) = []
   \<and> messageQueue (ctx (processMessage (Message NextFrame None None)
          \<lparr>ctx = ctx idle, host = host idle, nextFrame = False, handled = []\<rparr>))
     = [Message NextFrame None None]"
  by (simp add: tick_defs idle_def)

text \<open>
  C2, amended. Handling a \<open>NextFrame\<close> message sets the flag \<open>nextFrame\<close> and appends one
  fresh \<open>NextFrame\<close> message without payload or successor to the context's queue, followed
  by the handled message's own successor if it has one. Nothing else changes: no call
  reaches the host, so nothing is rendered, and every other part of the context stays as
  it was.
\<close>

theorem NextFrame_effect:
  "processMessage (Message NextFrame d n) s
     = s\<lparr>ctx := (ctx s)\<lparr>messageQueue :=
                   messageQueue (ctx s) @ Message NextFrame None None
                     # successor (Message NextFrame d n)\<rparr>,
         nextFrame := True,
         handled := handled s @ [Message NextFrame d n]\<rparr>
   \<and> host (processMessage (Message NextFrame d n) s) = host s"
  by (cases n) (simp_all add: tick_defs successor_def)

section \<open>DrawLoadingScreen with the spinner off (C3)\<close>

text \<open>
  C3, as stated, fails for a request made before the \<open>DrawLoadingScreen\<close> message. With
  the spinner off, a drained \<open>NextFrame\<close> alone re-arms the timer; a drained \<open>NextFrame\<close>
  followed by \<open>DrawLoadingScreen\<close> does not: the invocation clears the canvas, draws the
  loading screen and ends without arming the timer.
\<close>

theorem spinner_off_counterexample:
  "nextFrame (handleMessages (idle\<lparr>ctx := (ctx idle)\<lparr>messageQueue :=
       [Message NextFrame None None]\<rparr>\<rparr>))
   \<and> \<not> nextFrame (handleMessages (idle\<lparr>ctx := (ctx idle)\<lparr>messageQueue :=
       [Message NextFrame None None, Message DrawLoadingScreen None None]\<rparr>\<rparr>))
   \<and> calls (host (handleMessages (idle\<lparr>ctx := (ctx idle)\<lparr>messageQueue :=
       [Message NextFrame None None, Message DrawLoadingScreen None None]\<rparr>\<rparr>)))
       = [ClearCanvas, DrawLoadingScreenCall 1]
   \<and> \<not> showingSpinner (ctx idle)"
  by (simp add: handleMessages_def drainMessageQueue_def armTimer_def tick_defs idle_def)

lemma flag_stays_set:
  "list_all (\<lambda>m. \<not> withdrawsFrame m) rest \<Longrightarrow> foldl (flagAfter False) True rest = True"
proof (induction rest)
  case Nil
  show ?case by simp
next
  case (Cons m rest)
  then have "flagAfter False True m = True"
    by (simp add: flagAfter_def withdrawsFrame_def)
  with Cons show ?case by simp
qed

lemma flag_set_by_request: "requestsFrame r \<Longrightarrow> flagAfter sp b r = True"
  by (simp add: flagAfter_def requestsFrame_def split: if_splits)

text \<open>
  C3, amended. A \<open>DrawLoadingScreen\<close> message without successor, handled while
  \<open>showingSpinner\<close> is false, leaves the flag \<open>nextFrame\<close> false: it requests nothing and
  it withdraws what the messages before it in the drained sequence had requested, so an
  invocation whose last drained message it is ends with the flag false. In general the
  invocation ends with the flag it would end with had it drained only the messages behind
  that message. If a message behind it requests a frame (a \<open>NextFrame\<close>, or any message
  that carries a successor) and no further \<open>DrawLoadingScreen\<close> without successor is
  drained behind that request, the invocation ends with the flag true. An invocation arms
  the timer once when it ends with the flag true and not at all when it ends with the
  flag false.
\<close>

theorem spinner_off_resets_the_flag:
  assumes "requestsFrame r" and "list_all (\<lambda>m. \<not> withdrawsFrame m) rest"
  shows "nextFrame (processMessage (Message DrawLoadingScreen d None)
                (s\<lparr>ctx := (ctx s)\<lparr>showingSpinner := False\<rparr>\<rparr>)) = False
   \<and> nextFrame (handleMessages (w\<lparr>ctx := (ctx w)\<lparr>showingSpinner := False,
         messageQueue := pre @ [Message DrawLoadingScreen d None]\<rparr>\<rparr>)) = False
   \<and> nextFrame (handleMessages (w\<lparr>ctx := (ctx w)\<lparr>showingSpinner := False,
         messageQueue := pre @ Message DrawLoadingScreen d None # post\<rparr>\<rparr>))
       = nextFrame (handleMessages (w\<lparr>ctx := (ctx w)\<lparr>showingSpinner := False,
         messageQueue := post\<rparr>\<rparr>))
   \<and> nextFrame (handleMessages (w\<lparr>ctx := (ctx w)\<lparr>showingSpinner := False,
         messageQueue := pre @ Message DrawLoadingScreen d None # mid @ r # rest\<rparr>\<rparr>)) = True
   \<and> nextFrame (handleMessages (w\<lparr>ctx := (ctx w)\<lparr>showingSpinner := False,
         messageQueue := pre @ Message DrawLoadingScreen d None
           # mid @ [Message NextFrame d' n]\<rparr>\<rparr>)) = True
   \<and> count_list (calls (host (handleMessages w))) (SetTimeout FPS60)
       = count_list (calls (host w)) (SetTimeout FPS60)
         + (if nextFrame (handleMessages w) then 1 else 0)"
proof -
  have later: "foldl (flagAfter False) b (mid @ r # rest) = True" for b
    using flag_set_by_request [OF assms(1)] flag_stays_set [OF assms(2)] by simp
  have "nextFrame (handleMessages (w\<lparr>ctx := (ctx w)\<lparr>showingSpinner := False,
         messageQueue := pre @ Message DrawLoadingScreen d None # mid @ r # rest\<rparr>\<rparr>)) = True"
    using later by (simp add: nextFrame_handleMessages)
  then show ?thesis
    by (simp add: nextFrame_processMessage nextFrame_handleMessages flagAfter_def
        timeouts_handleMessages)
qed

text \<open>
  C3, amended, at a concrete input: in the idle context, a \<open>NextFrame\<close>, then the
  \<open>DrawLoadingScreen\<close>, then a \<open>ClearScreen\<close> that carries a successor, then an
  \<open>InitStepFile\<close>.
\<close>

theorem spinner_off_resets_the_flag_witness:
  "requestsFrame (Message ClearScreen None (Some (Message NextFrame None None)))
   \<and> list_all (\<lambda>m. \<not> withdrawsFrame m) [Message InitStepFile None None]
   \<and> nextFrame (handleMessages (idle\<lparr>ctx := (ctx idle)\<lparr>showingSpinner := False,
         messageQueue := [Message NextFrame None None] @ Message DrawLoadingScreen None None
           # [] @ Message ClearScreen None (Some (Message NextFrame None None))
           # [Message InitStepFile None None]\<rparr>\<rparr>)) = True"
proof -
  have h1: "requestsFrame (Message ClearScreen None (Some (Message NextFrame None None)))"
    by (simp add: requestsFrame_def)
  have h2: "list_all (\<lambda>m. \<not> withdrawsFrame m) [Message InitStepFile None None]"
    by (simp add: withdrawsFrame_def)
  show ?thesis
    using h1 h2 spinner_off_resets_the_flag [OF h1 h2, where w = idle
        and pre = "[Message NextFrame None None]" and mid = "[]" and d = None]
    by (intro conjI) blast+
qed

section \<open>Kinds the scheduler does not handle (C9)\<close>

lemma unhandled_processMessage:
  assumes "unhandledKind (type u)" and "nextMessage u = None"
  shows "processMessage u s = (call LogUnhandled s)\<lparr>handled := handled s @ [u]\<rparr>"
  using assms by (cases "type u") (simp_all add: tick_defs)

lemma skip_unhandled:
  assumes "unhandledKind (type u)" and "nextMessage u = None"
  shows "\<exists>r a. armTimer (processQueue (pre @ u # post) s)
               = rebase (calls (host s) @ a @ [LogUnhandled]) (handled s @ pre @ [u]) r
             \<and> armTimer (processQueue (pre @ post) s)
               = rebase (calls (host s) @ a) (handled s @ pre) r"
proof -
  define s1 where "s1 = processQueue pre (fresh s)"
  define r where "r = armTimer (processQueue post (fresh s1))"
  have pre: "processQueue pre s = rebase (calls (host s)) (handled s) s1"
    unfolding s1_def using rebase_processQueue [of pre "calls (host s)" "handled s" "fresh s"]
    by (simp add: rebase_fresh)
  have s1r: "rebase (calls (host s)) (handled s) s1
               = rebase (calls (host s) @ calls (host s1)) (handled s @ handled s1) (fresh s1)"
    by (simp add: rebase_def fresh_def)
  have h1: "handled s1 = pre"
    by (simp add: s1_def handled_processQueue fresh_def)
  have skipped: "armTimer (processQueue (pre @ post) s)
                   = rebase (calls (host s) @ calls (host s1)) (handled s @ pre) r"
    by (simp add: processQueue_append pre s1r h1 rebase_processQueue rebase_armTimer r_def)
  have "processMessage u (processQueue pre s)
          = rebase ((calls (host s) @ calls (host s1)) @ [LogUnhandled])
              ((handled s @ pre) @ [u]) (fresh s1)"
    by (simp add: unhandled_processMessage [OF assms] pre s1r h1 rebase_def fresh_def call_def)
  then have "armTimer (processQueue (pre @ u # post) s)
          = rebase (calls (host s) @ calls (host s1) @ [LogUnhandled])
              (handled s @ pre @ [u]) r"
    by (simp add: processQueue_append rebase_processQueue rebase_armTimer r_def)
  with skipped show ?thesis by blast
qed

text \<open>
  C9, as stated, fails for a message of an unhandled kind that carries a successor: the
  successor check behind the \<open>switch\<close> applies to it as to any other message. In the idle
  context the queue is empty before; afterwards it holds the successor and a reschedule
  is requested.
\<close>

theorem unhandled_kind_counterexample:
  "messageQueue (ctx (processMessage
       (Message SetStepFileContent None (Some (Message ClearScreen None None)))
       \<lparr>ctx = ctx idle, host = host idle, nextFrame = False, handled = []\<rparr>))
     = [Message ClearScreen None None]
   \<and> nextFrame (processMessage
       (Message SetStepFileContent None (Some (Message ClearScreen None None)))
       \<lparr>ctx = ctx idle, host = host idle, nextFrame = False, handled = []\<rparr>)
   \<and> messageQueue (ctx idle) = []"
  by (simp add: tick_defs idle_def)

text \<open>
  C9, amended. A drained message of a kind the scheduler does not handle, and without a
  successor, is logged and changes neither the context nor the flag \<open>nextFrame\<close>. The rest
  of the drained sequence is handled as if the message were absent: the invocation ends
  in the same context and with the same flag, and the calls it makes are the same, in the
  same order, with the one log line in between. A message of such a kind that carries a
  successor is logged, its successor is appended to the context's queue and the flag
  \<open>nextFrame\<close> is set to true when it is handled; nothing else changes.
\<close>

theorem unhandled_kind_is_skipped:
  assumes "unhandledKind t"
  shows "processMessage (Message t d None) s
       = (call LogUnhandled s)\<lparr>handled := handled s @ [Message t d None]\<rparr>
     \<and> ctx (processMessage (Message t d None) s) = ctx s
     \<and> nextFrame (processMessage (Message t d None) s) = nextFrame s
     \<and> ctx (handleMessages (w\<lparr>ctx := (ctx w)\<lparr>messageQueue := pre @ Message t d None # post\<rparr>\<rparr>))
         = ctx (handleMessages (w\<lparr>ctx := (ctx w)\<lparr>messageQueue := pre @ post\<rparr>\<rparr>))
     \<and> nextFrame (handleMessages
           (w\<lparr>ctx := (ctx w)\<lparr>messageQueue := pre @ Message t d None # post\<rparr>\<rparr>))
         = nextFrame (handleMessages (w\<lparr>ctx := (ctx w)\<lparr>messageQueue := pre @ post\<rparr>\<rparr>))
     \<and> (\<exists>a b.
           calls (host (handleMessages (w\<lparr>ctx := (ctx w)\<lparr>messageQueue := pre @ post\<rparr>\<rparr>)))
             = calls (host w) @ a @ b
         \<and> calls (host (handleMessages
               (w\<lparr>ctx := (ctx w)\<lparr>messageQueue := pre @ Message t d None # post\<rparr>\<rparr>)))
             = calls (host w) @ a @ LogUnhandled # b)
     \<and> processMessage (Message t d (Some n)) s
       = s\<lparr>ctx := (ctx s)\<lparr>messageQueue := messageQueue (ctx s) @ [n]\<rparr>,
           host := (host s)\<lparr>calls := calls (host s) @ [LogUnhandled]\<rparr>,
           nextFrame := True,
           handled := handled s @ [Message t d (Some n)]\<rparr>"
proof -
  let ?u = "Message t d None"
  have u: "unhandledKind (type ?u)" "nextMessage ?u = None"
    using assms by simp_all
  let ?s = "\<lparr>ctx = (ctx w)\<lparr>messageQueue := []\<rparr>, host = host w,
             nextFrame = False, handled = []\<rparr>"
  obtain r a where
    w1: "armTimer (processQueue (pre @ ?u # post) ?s)
             = rebase (calls (host ?s) @ a @ [LogUnhandled]) (handled ?s @ pre @ [?u]) r"
    and w0: "armTimer (processQueue (pre @ post) ?s)
             = rebase (calls (host ?s) @ a) (handled ?s @ pre) r"
    using skip_unhandled [OF u, of pre post ?s] by blast
  have hw: "handleMessages (w\<lparr>ctx := (ctx w)\<lparr>messageQueue := pre @ ?u # post\<rparr>\<rparr>)
              = rebase (calls (host w) @ a @ [LogUnhandled]) (pre @ [?u]) r"
    using w1 by (simp add: handleMessages_def drainMessageQueue_def)
  have ho: "handleMessages (w\<lparr>ctx := (ctx w)\<lparr>messageQueue := pre @ post\<rparr>\<rparr>)
              = rebase (calls (host w) @ a) pre r"
    using w0 by (simp add: handleMessages_def drainMessageQueue_def)
  have one: "processMessage ?u s = (call LogUnhandled s)\<lparr>handled := handled s @ [?u]\<rparr>"
    by (rule unhandled_processMessage [OF u])
  have two: "ctx (processMessage ?u s) = ctx s" "nextFrame (processMessage ?u s) = nextFrame s"
    by (simp_all add: one call_def)
  have calls: "calls (host (rebase (calls (host w) @ a) pre r)) = calls (host w) @ a @ calls (host r)"
    "calls (host (rebase (calls (host w) @ a @ [LogUnhandled]) (pre @ [?u]) r))
       = calls (host w) @ a @ LogUnhandled # calls (host r)"
    by simp_all
  have succ: "processMessage (Message t d (Some n)) s
       = s\<lparr>ctx := (ctx s)\<lparr>messageQueue := messageQueue (ctx s) @ [n]\<rparr>,
           host := (host s)\<lparr>calls := calls (host s) @ [LogUnhandled]\<rparr>,
           nextFrame := True,
           handled := handled s @ [Message t d (Some n)]\<rparr>"
    using assms by (cases t) (simp_all add: tick_defs)
  show ?thesis
    unfolding hw ho using one two calls succ by (intro conjI exI) simp_all
qed

text \<open>
  C9, amended, at a concrete input: \<open>InitDemoScene\<close>, which the viewer's scheduler does
  not handle, between a \<open>ClearScreen\<close> and a \<open>NextFrame\<close> in the idle context, and the
  same kind with a \<open>ClearScreen\<close> as its successor.
\<close>

theorem unhandled_kind_is_skipped_witness:
  "unhandledKind InitDemoScene
   \<and> ctx (handleMessages (idle\<lparr>ctx := (ctx idle)\<lparr>messageQueue :=
        [Message ClearScreen None None] @ Message InitDemoScene None None
          # [Message NextFrame None None]\<rparr>\<rparr>))
     = ctx (handleMessages (idle\<lparr>ctx := (ctx idle)\<lparr>messageQueue :=
        [Message ClearScreen None None] @ [Message NextFrame None None]\<rparr>\<rparr>))
   \<and> messageQueue (ctx (processMessage
        (Message InitDemoScene None (Some (Message ClearScreen None None)))
        \<lparr>ctx = ctx idle, host = host idle, nextFrame = False, handled = []\<rparr>))
     = messageQueue (ctx idle) @ [Message ClearScreen None None]"
proof -
  have h: "unhandledKind InitDemoScene" by simp
  note t = unhandled_kind_is_skipped [OF h, where w = idle and d = None
      and pre = "[Message ClearScreen None None]" and post = "[Message NextFrame None None]"
      and n = "Message ClearScreen None None"
      and s = "\<lparr>ctx = ctx idle, host = host idle, nextFrame = False, handled = []\<rparr>"]
  show ?thesis using h t by simp
qed

section \<open>The empty-scene chain, invocation by invocation (C1)\<close>

lemmas run_defs = run_def pushMessage_def

lemmas invocation_defs = handleMessages_def drainMessageQueue_def armTimer_def after_def
  FPS60_def tick_defs

lemma ticks_2: "ticks 2 w = ticks (Suc (Suc 0)) w"
  by (simp add: eval_nat_numeral)

lemma ticks_5: "ticks 5 w = ticks (Suc (Suc (Suc (Suc (Suc 0))))) w"
  by (simp add: eval_nat_numeral)

lemma tick_ClearScreen_link:
  assumes "messageQueue (ctx w) = [Message ClearScreen d (Some n)]"
  shows "handleMessages w
     = \<lparr>ctx = (ctx w)\<lparr>messageQueue := [n]\<rparr>,
        host = (host w)\<lparr>calls := calls (host w) @ [ClearCanvas, SetTimeout FPS60]\<rparr>,
        nextFrame = True, handled = [Message ClearScreen d (Some n)]\<rparr>"
  using assms by (simp add: handleMessages_def drainMessageQueue_def armTimer_def tick_defs)

lemma tick_InitEmptyScene_link:
  assumes "messageQueue (ctx w) = [Message InitEmptyScene d (Some n)]"
  shows "handleMessages w
     = \<lparr>ctx = (ctx w)\<lparr>messageQueue := [n],
                        viewController := (viewController (ctx w))\<lparr>shouldRender := True\<rparr>\<rparr>,
        host = (host w)\<lparr>calls := calls (host w) @ [InitScene, UpdateView, SetTimeout FPS60]\<rparr>,
        nextFrame = True, handled = [Message InitEmptyScene d (Some n)]\<rparr>"
  using assms by (simp add: handleMessages_def drainMessageQueue_def armTimer_def tick_defs)

lemma tick_NextFrame_last:
  assumes "messageQueue (ctx w) = [Message NextFrame d None]"
  shows "handleMessages w
     = \<lparr>ctx = (ctx w)\<lparr>messageQueue := [Message NextFrame None None]\<rparr>,
        host = (host w)\<lparr>calls := calls (host w) @ [SetTimeout FPS60]\<rparr>,
        nextFrame = True, handled = [Message NextFrame d None]\<rparr>"
  using assms by (simp add: handleMessages_def drainMessageQueue_def armTimer_def tick_defs)

lemma five_ticks_of_emptySceneChain:
  "ticks 5 (run [PushMessage emptySceneChain]
      (w\<lparr>ctx := (ctx w)\<lparr>messageQueue := [], currentlyViewingDoc := None\<rparr>\<rparr>))
   = ([[emptySceneChain],
       [Message ClearScreen None (Some (Message ClearScreen None
          (Some (Message InitEmptyScene None (Some (Message NextFrame None None))))))],
       [Message ClearScreen None
          (Some (Message InitEmptyScene None (Some (Message NextFrame None None))))],
       [Message InitEmptyScene None (Some (Message NextFrame None None))],
       [Message NextFrame None None]],
      \<lparr>ctx = (ctx w)\<lparr>messageQueue := [Message NextFrame None None],
                      currentlyViewingDoc := None,
                      viewController := (viewController (ctx w))\<lparr>shouldRender := True\<rparr>\<rparr>,
       host = (host w)\<lparr>calls := calls (host w) @ [ClearCanvas, SetTimeout FPS60,
           ClearCanvas, SetTimeout FPS60, ClearCanvas, SetTimeout FPS60,
           InitScene, UpdateView, SetTimeout FPS60, SetTimeout FPS60]\<rparr>\<rparr>)"
  by (simp add: ticks_5 run_defs emptySceneChain_def after_def
      tick_ClearScreen_link tick_InitEmptyScene_link tick_NextFrame_last)

text \<open>
  C1, as stated, fails: \<open>initEmptyScene\<close> pushes one message, the head of the chain, and
  one invocation handles that one message. In the idle context it clears the canvas once
  and arms the timer; the other four steps have not run.
\<close>

theorem one_invocation_counterexample:
  "initEmptyScene = Some [PushMessage emptySceneChain]
   \<and> map type (handled (handleMessages (run [PushMessage emptySceneChain] idle))) = [ClearScreen]
   \<and> calls (host (handleMessages (run [PushMessage emptySceneChain] idle)))
       = [ClearCanvas, SetTimeout 16]"
  by (simp add: initEmptyScene_def pushChain_def chain_emptyScene run_defs idle_def
      invocation_defs emptySceneChain_def)

text \<open>
  C1, amended. If the chain ClearScreen, ClearScreen, ClearScreen, InitEmptyScene,
  NextFrame is pushed as one chain into an empty queue of a context without a document,
  then five consecutive invocations handle one step each, in chain order: three clears of
  the canvas, the initialisation of the empty scene with its view update, and the
  \<open>NextFrame\<close> self-push. Every one of the five invocations ends by arming the timer. After
  them the document handle is still unset, the spinner flag is what it was, and the queue
  holds the one \<open>NextFrame\<close> message that keeps the loop alive.
\<close>

theorem empty_scene_chain_takes_five_invocations:
  "initEmptyScene = Some [PushMessage emptySceneChain]
   \<and> kinds emptySceneChain = [ClearScreen, ClearScreen, ClearScreen, InitEmptyScene, NextFrame]
   \<and> map (map type) (fst (ticks 5 (run [PushMessage emptySceneChain]
         (w\<lparr>ctx := (ctx w)\<lparr>messageQueue := [], currentlyViewingDoc := None\<rparr>\<rparr>))))
       = [[ClearScreen], [ClearScreen], [ClearScreen], [InitEmptyScene], [NextFrame]]
   \<and> calls (host (snd (ticks 5 (run [PushMessage emptySceneChain]
         (w\<lparr>ctx := (ctx w)\<lparr>messageQueue := [], currentlyViewingDoc := None\<rparr>\<rparr>)))))
       = calls (host w) @ [ClearCanvas, SetTimeout FPS60, ClearCanvas, SetTimeout FPS60,
           ClearCanvas, SetTimeout FPS60, InitScene, UpdateView, SetTimeout FPS60,
           SetTimeout FPS60]
   \<and> currentlyViewingDoc (ctx (snd (ticks 5 (run [PushMessage emptySceneChain]
         (w\<lparr>ctx := (ctx w)\<lparr>messageQueue := [], currentlyViewingDoc := None\<rparr>\<rparr>))))) = None
   \<and> showingSpinner (ctx (snd (ticks 5 (run [PushMessage emptySceneChain]
         (w\<lparr>ctx := (ctx w)\<lparr>messageQueue := [], currentlyViewingDoc := None\<rparr>\<rparr>)))))
       = showingSpinner (ctx w)
   \<and> messageQueue (ctx (snd (ticks 5 (run [PushMessage emptySceneChain]
         (w\<lparr>ctx := (ctx w)\<lparr>messageQueue := [], currentlyViewingDoc := None\<rparr>\<rparr>)))))
       = [Message NextFrame None None]"
  unfolding five_ticks_of_emptySceneChain
  by (simp add: initEmptyScene_def pushChain_def chain_emptyScene emptySceneChain_def)

section \<open>Chains advance one link per invocation (C4)\<close>

lemma requeue_append: "requeue sp (xs @ ys) = requeue sp xs @ requeue sp ys"
  by (simp add: requeue_def)

lemma requeue_funpow_append:
  "(requeue sp ^^ i) (xs @ ys) = (requeue sp ^^ i) xs @ (requeue sp ^^ i) ys"
  by (induction i arbitrary: xs ys) (simp_all add: requeue_append funpow_swap1)

lemma requeue_single: "requeue sp [m] = selfPush sp m @ successor m"
  by (simp add: requeue_def)

lemma ticks_handled:
  "i < n \<Longrightarrow> fst (ticks n w) ! i = (requeue (showingSpinner (ctx w)) ^^ i) (messageQueue (ctx w))"
proof (induction n arbitrary: w i)
  case 0
  then show ?case by simp
next
  case (Suc n)
  let ?s = "handleMessages w"
  obtain hs w' where t: "ticks n (after ?s) = (hs, w')" by (cases "ticks n (after ?s)")
  show ?case
  proof (cases i)
    case 0
    then show ?thesis by (simp add: t handled_handleMessages Let_def)
  next
    case (Suc j)
    with Suc.prems have "j < n" by simp
    then have "fst (ticks n (after ?s)) ! j
        = (requeue (showingSpinner (ctx w)) ^^ j)
            (requeue (showingSpinner (ctx w)) (messageQueue (ctx w)))"
      using Suc.IH [of j "after ?s"]
      by (simp add: spinner_handleMessages queue_handleMessages)
    with Suc show ?thesis by (simp add: t Let_def funpow_swap1)
  qed
qed

lemma no_successor_requeue:
  "list_all (\<lambda>y. nextMessage y = None) q \<Longrightarrow> list_all (\<lambda>y. nextMessage y = None) (requeue sp q)"
  by (induction q) (simp_all add: requeue_def selfPush_def successor_def)

lemma no_successor_funpow:
  "list_all (\<lambda>y. nextMessage y = None) q \<Longrightarrow>
     list_all (\<lambda>y. nextMessage y = None) ((requeue sp ^^ i) q)"
  by (induction i) (simp_all add: no_successor_requeue)

lemma no_successor_selfPush: "list_all (\<lambda>y. nextMessage y = None) (selfPush sp m)"
  by (simp add: selfPush_def)

lemma chain_advances:
  "behind i m = Some mi \<Longrightarrow>
     \<exists>x. (requeue sp ^^ i) [m] = x @ [mi] \<and> list_all (\<lambda>y. nextMessage y = None) x"
proof (induction i arbitrary: m)
  case 0
  then show ?case by simp
next
  case (Suc i)
  then obtain n where n: "nextMessage m = Some n" and b: "behind i n = Some mi"
    by (auto split: option.splits)
  from Suc.IH [OF b] obtain x where
    x: "(requeue sp ^^ i) [n] = x @ [mi]" "list_all (\<lambda>y. nextMessage y = None) x"
    by blast
  have "(requeue sp ^^ Suc i) [m] = (requeue sp ^^ i) (selfPush sp m @ [n])"
    by (simp add: funpow_swap1 requeue_single successor_def n)
  also have "\<dots> = ((requeue sp ^^ i) (selfPush sp m) @ x) @ [mi]"
    by (simp add: requeue_funpow_append x)
  finally show ?case
    using x(2) no_successor_funpow [OF no_successor_selfPush, where sp = sp and i = i]
    by (intro exI [of _ "(requeue sp ^^ i) (selfPush sp m) @ x"]) simp
qed

lemma behind_kinds:
  "i < length (kinds m) \<Longrightarrow>
     \<exists>mi. behind i m = Some mi \<and> kinds mi = drop i (kinds m) \<and> type mi = kinds m ! i"
proof (induction i arbitrary: m)
  case 0
  then show ?case by (cases m rule: kinds.cases) simp_all
next
  case (Suc i)
  then show ?case by (cases m rule: kinds.cases) simp_all
qed

lemma two_chains_two_ticks:
  "fst (ticks 2 (run [PushMessage emptySceneChain, PushMessage stepFileChain] idle))
     = [[emptySceneChain, stepFileChain],
        [Message ClearScreen None (Some (Message ClearScreen None
           (Some (Message InitEmptyScene None (Some (Message NextFrame None None)))))),
         Message ClearScreen None (Some (Message ClearScreen None
           (Some (Message InitStepFile None (Some (Message NextFrame None None))))))]]"
  by (simp add: ticks_2 run_defs idle_def handled_handleMessages queue_handleMessages
      spinner_handleMessages requeue_def selfPush_def successor_def Let_def
      emptySceneChain_def stepFileChain_def split: prod.splits)

text \<open>
  C4, as stated, fails. With the empty-scene chain and the step-file chain both on the
  queue, as after \<open>initEmptyScene\<close> on the UI thread and a finished load on the worker
  thread, the first invocation handles the head of each and the second the second link of
  each. Naming every message by the kinds of the chain behind it, the head of the
  step-file chain is handled between the first and the second step of the empty-scene
  chain.
\<close>

theorem two_chains_interleave_counterexample:
  "map kinds (concat (fst (ticks 2
       (run [PushMessage emptySceneChain, PushMessage stepFileChain] idle))))
     = [[ClearScreen, ClearScreen, ClearScreen, InitEmptyScene, NextFrame],
        [ClearScreen, ClearScreen, ClearScreen, InitStepFile, NextFrame],
        [ClearScreen, ClearScreen, InitEmptyScene, NextFrame],
        [ClearScreen, ClearScreen, InitStepFile, NextFrame]]
   \<and> between [ClearScreen, ClearScreen, ClearScreen, InitEmptyScene, NextFrame]
         [ClearScreen, ClearScreen, InitEmptyScene, NextFrame]
         (map kinds (concat (fst (ticks 2
            (run [PushMessage emptySceneChain, PushMessage stepFileChain] idle)))))
     = [[ClearScreen, ClearScreen, ClearScreen, InitStepFile, NextFrame]]"
  unfolding two_chains_two_ticks
  by (simp add: between_def emptySceneChain_def stepFileChain_def)

text \<open>
  C4, amended. For every chain pushed as one linked value, whatever else the queue holds
  in front of it and behind it, its steps run one per invocation and in chain order: the
  invocation number \<open>i + 1\<close> after the push handles the link \<open>i\<close> of the chain, whose kind
  is the \<open>i\<close>-th kind of the chain. The same invocation handles, before that link, what
  has become of the messages queued in front of the chain and the self-pushes the chain's
  earlier steps have left, and, after it, what has become of the messages queued behind
  the chain. So the steps of other chains on the queue are handled between two
  consecutive steps of this one.
\<close>

theorem chain_steps_one_per_invocation:
  assumes "i < length (kinds m)" and "i < n"
  shows "\<exists>mi x. behind i m = Some mi
           \<and> kinds mi = drop i (kinds m)
           \<and> type mi = kinds m ! i
           \<and> list_all (\<lambda>y. nextMessage y = None) x
           \<and> fst (ticks n (w\<lparr>ctx := (ctx w)\<lparr>messageQueue := pre @ m # post\<rparr>\<rparr>)) ! i
               = (requeue (showingSpinner (ctx w)) ^^ i) pre @ x @ [mi]
                   @ (requeue (showingSpinner (ctx w)) ^^ i) post"
proof -
  obtain mi where mi: "behind i m = Some mi" "kinds mi = drop i (kinds m)"
      "type mi = kinds m ! i"
    using behind_kinds [OF assms(1)] by blast
  obtain x where x: "(requeue (showingSpinner (ctx w)) ^^ i) [m] = x @ [mi]"
      "list_all (\<lambda>y. nextMessage y = None) x"
    using chain_advances [OF mi(1)] by blast
  have "fst (ticks n (w\<lparr>ctx := (ctx w)\<lparr>messageQueue := pre @ m # post\<rparr>\<rparr>)) ! i
          = (requeue (showingSpinner (ctx w)) ^^ i) (pre @ [m] @ post)"
    using ticks_handled [OF assms(2)] by simp
  also have "\<dots> = (requeue (showingSpinner (ctx w)) ^^ i) pre
                   @ (requeue (showingSpinner (ctx w)) ^^ i) [m]
                   @ (requeue (showingSpinner (ctx w)) ^^ i) post"
    by (simp only: requeue_funpow_append)
  also have "\<dots> = (requeue (showingSpinner (ctx w)) ^^ i) pre @ x @ [mi]
                   @ (requeue (showingSpinner (ctx w)) ^^ i) post"
    by (simp add: x)
  finally show ?thesis using mi x(2) by blast
qed

text \<open>
  C4, amended, at a concrete input: the second step of the empty-scene chain, with the
  step-file chain queued behind it in the idle context, falls into the second invocation.
\<close>

theorem chain_steps_one_per_invocation_witness:
  "1 < length (kinds emptySceneChain) \<and> (1::nat) < 2
   \<and> (\<exists>mi x. behind 1 emptySceneChain = Some mi
           \<and> kinds mi = drop 1 (kinds emptySceneChain)
           \<and> type mi = kinds emptySceneChain ! 1
           \<and> list_all (\<lambda>y. nextMessage y = None) x
           \<and> fst (ticks 2 (idle\<lparr>ctx := (ctx idle)\<lparr>messageQueue :=
                 [] @ emptySceneChain # [stepFileChain]\<rparr>\<rparr>)) ! 1
               = (requeue (showingSpinner (ctx idle)) ^^ 1) [] @ x @ [mi]
                   @ (requeue (showingSpinner (ctx idle)) ^^ 1) [stepFileChain])"
proof -
  have h1: "1 < length (kinds emptySceneChain)"
    by (simp add: kinds_emptySceneChain)
  have h2: "(1::nat) < 2" by simp
  show ?thesis
    using h1 h2 chain_steps_one_per_invocation [OF h1 h2, where w = idle and pre = "[]"
        and post = "[stepFileChain]"]
    by (intro conjI)
qed

section \<open>The worker thread (C5, C6, C7)\<close>

lemma onStepFileRead_Some:
  "onStepFileRead (Some aDoc)
     = Some [Extern (PrintLabels aDoc), Extern LogLoaded, SetShowingSpinner False,
             SetCurrentlyViewingDoc aDoc, PushMessage stepFileChain,
             Extern AsyncRunHandleMessages]"
  by (simp add: onStepFileRead_def pushChain_def chain_stepFile)

lemma onStepFileRead_main_Some:
  "onStepFileRead_main (Some aDoc)
     = Some [Extern (PrintLabels aDoc), Extern LogLoaded, SetShowingSpinner False,
             SetCurrentlyViewingDoc aDoc, PushMessage demoSceneChain,
             Extern AsyncRunHandleMessages]"
  by (simp add: onStepFileRead_main_def pushChain_def chain_demoScene)

lemma onStepFileRead_None: "onStepFileRead None = Some [Extern LogFailedRead]"
  by (simp add: onStepFileRead_def)

lemma onStepFileRead_main_None: "onStepFileRead_main None = Some [Extern LogFailedRead]"
  by (simp add: onStepFileRead_main_def)

lemma loadStepFile_viewer_steps:
  "loadStepFile_viewer content docOpt
     = (case onStepFileRead docOpt of
          None \<Rightarrow> None
        | Some steps \<Rightarrow>
            Some (SetShowingSpinner True # PushMessage (Message DrawLoadingScreen None None)
                    # Extern (ReadStepFile content) # steps))"
  by (simp add: loadStepFile_viewer_def readStepFile_def beforeReadStepFile_def
      split: option.splits)

lemma loadStepFile_main_steps:
  "loadStepFile_main content docOpt
     = (case onStepFileRead_main docOpt of
          None \<Rightarrow> None
        | Some steps \<Rightarrow>
            Some (Extern LogLoadStepFile # SetShowingSpinner True
                    # PushMessage (Message DrawLoadingScreen None None)
                    # PushMessage (Message SetStepFileContent (Some content) None)
                    # Extern AsyncRunHandleMessages
                    # Extern (ReadStepFile content) # steps))"
  by (simp add: loadStepFile_main_def readStepFile_def beforeReadStepFile_main_def
      split: option.splits)

text \<open>
  C5, as stated, fails for the worker of the viewer class: between its start and the call
  of the document loader it sets the spinner flag and pushes \<open>DrawLoadingScreen\<close>, and
  that is all. No call has reached the host by then, so no invocation of the scheduler
  has been triggered.
\<close>

theorem viewer_worker_counterexample:
  "beforeParse (loadStepFile_viewer ''ISO-10303-21;'' None)
     = Some [SetShowingSpinner True, PushMessage (Message DrawLoadingScreen None None)]
   \<and> calls (host (run [SetShowingSpinner True,
                       PushMessage (Message DrawLoadingScreen None None)] idle)) = []"
  by (simp add: beforeParse_def loadStepFile_viewer_steps onStepFileRead_None run_defs
      idle_def)

text \<open>
  C5, amended. For every load request, whatever the parse will return, the worker of the
  viewer class sets \<open>showingSpinner\<close> to true and then pushes a \<open>DrawLoadingScreen\<close> message
  before it calls the document loader; it triggers no scheduler invocation before the
  parse and leaves the host untouched until then. The worker of the standalone entry
  point does the same two steps, then pushes \<open>SetStepFileContent\<close> with the file's text
  and, still before the parse, triggers one scheduler invocation.
\<close>

theorem worker_before_the_parse:
  "beforeParse (loadStepFile_viewer content docOpt)
     = Some [SetShowingSpinner True, PushMessage (Message DrawLoadingScreen None None)]
   \<and> ctx (run [SetShowingSpinner True, PushMessage (Message DrawLoadingScreen None None)] w)
     = (ctx w)\<lparr>showingSpinner := True,
               messageQueue := messageQueue (ctx w) @ [Message DrawLoadingScreen None None]\<rparr>
   \<and> host (run [SetShowingSpinner True, PushMessage (Message DrawLoadingScreen None None)] w)
     = host w
   \<and> beforeParse (loadStepFile_main content docOpt)
     = Some [Extern LogLoadStepFile, SetShowingSpinner True,
             PushMessage (Message DrawLoadingScreen None None),
             PushMessage (Message SetStepFileContent (Some content) None),
             Extern AsyncRunHandleMessages]"
  by (cases docOpt)
     (simp_all add: beforeParse_def loadStepFile_viewer_steps loadStepFile_main_steps
        onStepFileRead_None onStepFileRead_Some onStepFileRead_main_None
        onStepFileRead_main_Some run_defs)

lemma kinds_demoSceneChain:
  "kinds demoSceneChain = [ClearScreen, ClearScreen, ClearScreen, InitDemoScene, NextFrame]"
  by (simp add: demoSceneChain_def)

text \<open>
  C6, as stated, fails for the completion callback of the standalone worker: the chain it
  pushes has \<open>InitDemoScene\<close> where the claim has \<open>InitStepFile\<close>.
\<close>

theorem standalone_callback_counterexample:
  "onStepFileRead_main (Some 7)
     = Some [Extern (PrintLabels 7), Extern LogLoaded, SetShowingSpinner False,
             SetCurrentlyViewingDoc 7, PushMessage demoSceneChain,
             Extern AsyncRunHandleMessages]
   \<and> kinds demoSceneChain = [ClearScreen, ClearScreen, ClearScreen, InitDemoScene, NextFrame]
   \<and> kinds demoSceneChain \<noteq> [ClearScreen, ClearScreen, ClearScreen, InitStepFile, NextFrame]"
  by (simp add: onStepFileRead_main_Some kinds_demoSceneChain)

text \<open>
  C6, amended. For every document the parse returns, the completion callback, of the
  viewer's worker and of the standalone one alike, first writes \<open>showingSpinner = false\<close>
  and the document handle, then pushes one message, the head of the chain the builder
  returns, and then triggers one scheduler invocation; these are its only steps besides
  two log lines. The chain of the viewer's callback is ClearScreen, ClearScreen,
  ClearScreen, InitStepFile, NextFrame, where \<open>InitStepFile\<close> is the kind on which the
  viewer's scheduler hands the current document to the view; the chain of the standalone
  callback has \<open>InitDemoScene\<close> in the place of \<open>InitStepFile\<close>. When the push happens the
  context already holds both writes and the queue is still what it was. Afterwards the
  queue has the pushed message at its end and the host has seen the two log lines and the
  one trigger. Each thread body is its steps before the parse, the parse, and these
  steps.
\<close>

theorem success_callback_publishes_after_writing:
  "onStepFileRead (Some aDoc)
     = Some [Extern (PrintLabels aDoc), Extern LogLoaded, SetShowingSpinner False,
             SetCurrentlyViewingDoc aDoc, PushMessage stepFileChain,
             Extern AsyncRunHandleMessages]
   \<and> chain [ClearScreen, ClearScreen, ClearScreen, InitStepFile, NextFrame] = Some stepFileChain
   \<and> kinds stepFileChain = [ClearScreen, ClearScreen, ClearScreen, InitStepFile, NextFrame]
   \<and> dispatch (Message InitStepFile d n) s
     = call (InitStepFileCall (currentlyViewingDoc (ctx s))) s
   \<and> onStepFileRead_main (Some aDoc)
     = Some [Extern (PrintLabels aDoc), Extern LogLoaded, SetShowingSpinner False,
             SetCurrentlyViewingDoc aDoc, PushMessage demoSceneChain,
             Extern AsyncRunHandleMessages]
   \<and> chain [ClearScreen, ClearScreen, ClearScreen, InitDemoScene, NextFrame] = Some demoSceneChain
   \<and> kinds demoSceneChain = [ClearScreen, ClearScreen, ClearScreen, InitDemoScene, NextFrame]
   \<and> ctx (run [Extern (PrintLabels aDoc), Extern LogLoaded, SetShowingSpinner False,
               SetCurrentlyViewingDoc aDoc] w)
     = (ctx w)\<lparr>showingSpinner := False, currentlyViewingDoc := Some aDoc\<rparr>
   \<and> ctx (run [Extern (PrintLabels aDoc), Extern LogLoaded, SetShowingSpinner False,
               SetCurrentlyViewingDoc aDoc, PushMessage m,
               Extern AsyncRunHandleMessages] w)
     = (ctx w)\<lparr>showingSpinner := False, currentlyViewingDoc := Some aDoc,
               messageQueue := messageQueue (ctx w) @ [m]\<rparr>
   \<and> calls (host (run [Extern (PrintLabels aDoc), Extern LogLoaded, SetShowingSpinner False,
               SetCurrentlyViewingDoc aDoc, PushMessage m,
               Extern AsyncRunHandleMessages] w))
     = calls (host w) @ [PrintLabels aDoc, LogLoaded, AsyncRunHandleMessages]
   \<and> loadStepFile_viewer content (Some aDoc)
     = Some [SetShowingSpinner True, PushMessage (Message DrawLoadingScreen None None),
             Extern (ReadStepFile content),
             Extern (PrintLabels aDoc), Extern LogLoaded, SetShowingSpinner False,
             SetCurrentlyViewingDoc aDoc, PushMessage stepFileChain,
             Extern AsyncRunHandleMessages]
   \<and> loadStepFile_main content (Some aDoc)
     = Some [Extern LogLoadStepFile, SetShowingSpinner True,
             PushMessage (Message DrawLoadingScreen None None),
             PushMessage (Message SetStepFileContent (Some content) None),
             Extern AsyncRunHandleMessages,
             Extern (ReadStepFile content),
             Extern (PrintLabels aDoc), Extern LogLoaded, SetShowingSpinner False,
             SetCurrentlyViewingDoc aDoc, PushMessage demoSceneChain,
             Extern AsyncRunHandleMessages]"
  by (simp add: onStepFileRead_Some onStepFileRead_main_Some chain_stepFile chain_demoScene
      kinds_stepFileChain kinds_demoSceneChain run_defs loadStepFile_viewer_steps
      loadStepFile_main_steps dispatch_def)

text \<open>
  C7. When the parse returns an empty handle, the completion callback, of the viewer's
  worker and of the standalone one alike, is one log line: it leaves the whole context as
  it was and pushes nothing. The failed load as a whole has set the spinner flag and
  pushed \<open>DrawLoadingScreen\<close> before the parse and nothing after it; so the flag the
  worker set stays true and a document handle that was unset stays unset.
\<close>

theorem failed_load_changes_nothing:
  "onStepFileRead None = Some [Extern LogFailedRead]
   \<and> onStepFileRead_main None = Some [Extern LogFailedRead]
   \<and> ctx (run [Extern LogFailedRead] w) = ctx w
   \<and> calls (host (run [Extern LogFailedRead] w)) = calls (host w) @ [LogFailedRead]
   \<and> loadStepFile_viewer content None
     = Some [SetShowingSpinner True, PushMessage (Message DrawLoadingScreen None None),
             Extern (ReadStepFile content), Extern LogFailedRead]
   \<and> ctx (run [SetShowingSpinner True, PushMessage (Message DrawLoadingScreen None None),
               Extern (ReadStepFile content), Extern LogFailedRead] w)
     = (ctx w)\<lparr>showingSpinner := True,
               messageQueue := messageQueue (ctx w) @ [Message DrawLoadingScreen None None]\<rparr>
   \<and> showingSpinner (ctx (run [Extern LogFailedRead]
         (w\<lparr>ctx := (ctx w)\<lparr>showingSpinner := True, currentlyViewingDoc := None\<rparr>\<rparr>)))
   \<and> currentlyViewingDoc (ctx (run [Extern LogFailedRead]
         (w\<lparr>ctx := (ctx w)\<lparr>showingSpinner := True, currentlyViewingDoc := None\<rparr>\<rparr>))) = None"
  by (simp add: onStepFileRead_None onStepFileRead_main_None run_defs
      loadStepFile_viewer_steps)

end
